theory Spec2Isabelle
  imports Main "HOL-Library.Word" "HOL-Library.Log_Nat"
begin

unbundle bit_operations_syntax

section \<open>Machine types and errors\<close>

text \<open>
  Go's fixed-width integers are words: \<open>uint32\<close>, \<open>uint64\<close> and \<open>byte\<close> wrap around
  as in the source; \<open>int32\<close> is the same 32-bit word read by \<open>sint\<close>. A \<open>[]byte\<close>
  and the unread part of a \<open>bytes.Reader\<close> are byte lists.
\<close>

type_synonym byte = "8 word"
type_synonym uint32 = "32 word"
type_synonym int32 = "32 word"
type_synonym uint64 = "64 word"

text \<open>
  Every error return of the source is a value. The wrappers of \<open>decompressCell\<close> and
  \<open>Decompress\<close> (\<open>fmt.Errorf("...: %w", err)\<close>) keep the wrapped error; a run-time
  panic on a slice index is \<open>PanicIndexOutOfRange\<close>.
\<close>

datatype error =
    ErrEOF
  | ErrUnexpectedEOF
  | ErrTooLarge
  | ErrCorruptInput
  | ErrLengthMismatch
  | ErrExceedsUniverse nat
  | ErrNotSorted nat
  | ErrDataTooShort
  | ErrHighBitsExhausted
  | ErrValueCountMismatch
  | ErrCreateDecoder error
  | ErrDecodeIndices error
  | ErrDecompressDeltas error
  | ErrCell nat error
  | PanicIndexOutOfRange

section \<open>Varint codec (delta\_encoding.go: writeVarint, readVarint)\<close>

text \<open>
  \<open>writeVarint\<close> first zig-zags the value, \<open>uint32((value << 1) ^ (value >> 31))\<close>,
  the right shift being arithmetic on \<open>int32\<close>; \<open>readVarint\<close> undoes it with
  \<open>int32((uvalue >> 1) ^ (-(uvalue & 1)))\<close>.
\<close>

definition zigzag :: "int32 \<Rightarrow> uint32" where
  "zigzag v = (push_bit 1 v) XOR (signed_drop_bit 31 v)"

definition unzigzag :: "uint32 \<Rightarrow> int32" where
  "unzigzag u = (drop_bit 1 u) XOR (- (u AND 1))"

lemma drop7_less: "(0x80::32 word) \<le> u \<Longrightarrow> unat (drop_bit 7 u) < unat u"
  by (simp add: unat_drop_bit_eq word_le_nat_alt drop_bit_eq_div unat_div)

text \<open>
  The loop \<open>for uvalue >= 0x80 { buf.WriteByte(byte(uvalue | 0x80)); uvalue >>= 7 }\<close>
  followed by \<open>buf.WriteByte(byte(uvalue))\<close>; the result is the bytes appended to the
  buffer.
\<close>

function writeVarint_loop :: "uint32 \<Rightarrow> byte list" where
  "writeVarint_loop uvalue =
     (if uvalue \<ge> 0x80 then ucast (uvalue OR 0x80) # writeVarint_loop (drop_bit 7 uvalue)
      else [ucast uvalue])"
  by pat_completeness auto
termination
  by (relation "measure unat") (auto simp add: drop7_less)

declare writeVarint_loop.simps [simp del]

definition writeVarint :: "int32 \<Rightarrow> byte list" where
  "writeVarint v = writeVarint_loop (zigzag v)"

text \<open>
  \<open>readVarint\<close> on the unread bytes of the reader: the value and the bytes left, or the
  error (\<open>io.EOF\<close> from \<open>ReadByte\<close>, \<open>bytes.ErrTooLarge\<close> once \<open>shift >= 32\<close>).
\<close>

fun readVarint_loop :: "byte list \<Rightarrow> uint32 \<Rightarrow> nat \<Rightarrow> error + (uint32 \<times> byte list)" where
  "readVarint_loop [] uvalue shift = Inl ErrEOF"
| "readVarint_loop (b # buf) uvalue shift =
     (let uvalue' = uvalue OR push_bit shift (ucast (b AND 0x7F)) in
      if b < 0x80 then Inr (uvalue', buf)
      else if shift + 7 \<ge> 32 then Inl ErrTooLarge
      else readVarint_loop buf uvalue' (shift + 7))"

definition readVarint :: "byte list \<Rightarrow> error + (int32 \<times> byte list)" where
  "readVarint buf =
     (case readVarint_loop buf 0 0 of
        Inl e \<Rightarrow> Inl e
      | Inr (uvalue, rest) \<Rightarrow> Inr (unzigzag uvalue, rest))"

subsection \<open>Zig-zag is a bijection on 32-bit words\<close>

lemma sdb31: "signed_drop_bit 31 (v::32 word) = (if bit v 31 then -1 else 0)"
proof (rule bit_word_eqI)
  fix n assume "n < LENGTH(32)"
  then show "bit (signed_drop_bit 31 v) n = bit (if bit v 31 then - 1 else (0::32 word)) n"
    by (cases "n = 0") (auto simp add: bit_signed_drop_bit_iff)
qed

lemma neg_and1: "- ((u::32 word) AND 1) = (if bit u 0 then -1 else 0)"
  by (simp add: and_one_eq mod2_eq_if bit_0)

lemma bit_zigzag:
  "n < 32 \<Longrightarrow> bit (zigzag v) n = ((0 < n \<and> bit v (n - 1)) \<noteq> bit v 31)"
  unfolding zigzag_def sdb31
  by (simp only: bit_xor_iff bit_push_bit_iff) (auto simp add: bit_simps)

lemma bit_unzigzag:
  "n < 32 \<Longrightarrow> bit (unzigzag u) n = ((n < 31 \<and> bit u (Suc n)) \<noteq> bit u 0)"
  unfolding unzigzag_def neg_and1
  by (simp only: bit_xor_iff bit_drop_bit_eq) (auto simp add: bit_simps dest: bit_imp_le_length)

lemma unzigzag_zigzag: "unzigzag (zigzag v) = v"
proof (rule bit_word_eqI)
  fix n assume n: "n < LENGTH(32)"
  then show "bit (unzigzag (zigzag v)) n = bit v n"
    by (cases "n = 31") (auto simp add: bit_unzigzag bit_zigzag)
qed


lemma bit127_int: "bit (127::int) n \<longleftrightarrow> n < 7"
proof -
  have e: "(127::int) = mask 7" by (simp add: mask_eq_exp_minus_1)
  show ?thesis unfolding e by (simp only: bit_mask_iff) auto
qed

lemma bit128_int: "bit (128::int) n \<longleftrightarrow> n = 7"
proof -
  have e: "(128::int) = 2 ^ 7" by simp
  show ?thesis unfolding e by (simp only: bit_exp_iff) auto
qed


lemma unat_less_iff_take_bit: "unat (u::'a::len word) < 2 ^ k \<longleftrightarrow> take_bit k u = u"
  by (simp add: word_eq_iff_unsigned [where ?'a = nat] unsigned_take_bit_eq take_bit_nat_eq_self_iff)

lemma less128_iff: "(u::32 word) < 128 \<longleftrightarrow> take_bit 7 u = u"
  using unat_less_iff_take_bit [of u 7] by (simp add: word_less_nat_alt)

lemma less128_iff8: "(u::8 word) < 128 \<longleftrightarrow> take_bit 7 u = u"
  using unat_less_iff_take_bit [of u 7] by (simp add: word_less_nat_alt)

lemma take_bit_bitD: "take_bit k (u::'a::len word) = u \<Longrightarrow> bit u n \<Longrightarrow> n < k"
  by (metis bit_take_bit_iff)

lemma low7: "ucast ((ucast ((u::32 word) OR 0x80) :: 8 word) AND 0x7F) = (take_bit 7 u :: 32 word)"
  by (rule bit_word_eqI) (auto simp add: bit_simps bit128_int bit127_int)

lemma low7_small: "(u::32 word) < 0x80 \<Longrightarrow> ucast ((ucast u :: 8 word) AND 0x7F) = u"
  unfolding less128_iff
  by (rule bit_word_eqI) (auto simp add: bit_simps bit128_int bit127_int dest: take_bit_bitD)

lemma bit7_iff: "(b :: 8 word) < 0x80 \<longleftrightarrow> \<not> bit b 7"
proof -
  have "take_bit 7 b = b \<longleftrightarrow> \<not> bit b 7"
  proof
    assume "take_bit 7 b = b" then show "\<not> bit b 7" using take_bit_bitD by blast
  next
    assume n7: "\<not> bit b 7"
    show "take_bit 7 b = b"
    proof (rule bit_word_eqI)
      fix n assume "n < LENGTH(8)"
      then show "bit (take_bit 7 b) n = bit b n" using n7
        by (cases "n = 7") (auto simp add: bit_simps)
    qed
  qed
  then show ?thesis by (simp add: less128_iff8)
qed

lemma hi_set: "\<not> (ucast ((u::32 word) OR 0x80) :: 8 word) < 0x80"
  unfolding bit7_iff by (simp add: bit_simps bit128_int)

lemma small_low: "(u::32 word) < 0x80 \<Longrightarrow> (ucast u :: 8 word) < 0x80"
  unfolding bit7_iff less128_iff by (auto simp add: bit_simps dest: take_bit_bitD)


lemma split7: "push_bit s (take_bit 7 u) OR push_bit (s + 7) (drop_bit 7 u) = push_bit s (u::32 word)"
proof (rule bit_word_eqI)
  fix n assume "n < LENGTH(32)"
  then show "bit (push_bit s (take_bit 7 u) OR push_bit (s + 7) (drop_bit 7 u)) n = bit (push_bit s u) n"
    by (cases "n - s < 7") (auto simp add: bit_simps)
qed

lemma shift_room:
  assumes "128 \<le> (n::nat)" "n < 2 ^ (32 - s)"
  shows "s + 7 < 32" and "n div 128 < 2 ^ (32 - (s + 7))"
proof -
  have "(2::nat) ^ 7 < 2 ^ (32 - s)" using assms by simp
  then have "7 < 32 - s" by (simp only: power_strict_increasing_iff)
  then show s: "s + 7 < 32" by simp
  have "32 - s = 7 + (32 - (s + 7))" using s by simp
  then have "(2::nat) ^ (32 - s) = 2 ^ 7 * 2 ^ (32 - (s + 7))"
    by (simp only: power_add)
  then show "n div 128 < 2 ^ (32 - (s + 7))" using assms(2)
    by (simp add: less_mult_imp_div_less mult.commute)
qed

lemma readVarint_loop_writeVarint_loop:
  "unat u < 2 ^ (32 - s) \<Longrightarrow>
   readVarint_loop (writeVarint_loop u @ rest) acc s = Inr (acc OR push_bit s u, rest)"
proof (induction u arbitrary: acc s rule: writeVarint_loop.induct)
  case (1 u)
  show ?case
  proof (cases "0x80 \<le> u")
    case True
    then have ge: "128 \<le> unat u" by (simp add: word_le_nat_alt)
    have room: "s + 7 < 32" "unat (drop_bit 7 u) < 2 ^ (32 - (s + 7))"
      using shift_room [OF ge "1.prems"] by (simp_all add: unat_drop_bit_eq drop_bit_eq_div unat_div)
    have "readVarint_loop (writeVarint_loop u @ rest) acc s =
          readVarint_loop (writeVarint_loop (drop_bit 7 u) @ rest) (acc OR push_bit s (take_bit 7 u)) (s + 7)"
      using True room(1) hi_set [of u]
      by (subst writeVarint_loop.simps) (simp add: low7 Let_def)
    also have "\<dots> = Inr (acc OR push_bit s (take_bit 7 u) OR push_bit (s + 7) (drop_bit 7 u), rest)"
      using "1.IH" [OF True room(2)] by (simp add: or.assoc)
    finally show ?thesis by (simp add: split7 or.assoc)
  next
    case False
    then have lt: "u < 0x80" by simp
    show ?thesis using False small_low [OF lt] low7_small [OF lt]
      by (subst writeVarint_loop.simps) (simp add: Let_def)
  qed
qed

lemma readVarint_writeVarint: "readVarint (writeVarint v @ rest) = Inr (v, rest)"
proof -
  have "unat (zigzag v) < 2 ^ (32 - 0)"
    using unsigned_less [of "zigzag v", where ?'a = nat] by simp
  then have "readVarint_loop (writeVarint_loop (zigzag v) @ rest) 0 0 = Inr (zigzag v, rest)"
    by (simp only: readVarint_loop_writeVarint_loop) simp
  then show ?thesis
    by (simp add: readVarint_def writeVarint_def unzigzag_zigzag)
qed

lemma zigzag_unzigzag: "zigzag (unzigzag u) = u"
proof (rule bit_word_eqI)
  fix n assume n: "n < LENGTH(32)"
  then show "bit (zigzag (unzigzag u)) n = bit u n"
    by (cases "n = 0") (auto simp add: bit_unzigzag bit_zigzag)
qed

lemma writeVarint_loop_length:
  "take_bit (7 * n) u = u \<Longrightarrow> 0 < n \<Longrightarrow> length (writeVarint_loop u) \<le> n"
proof (induction u arbitrary: n rule: writeVarint_loop.induct)
  case (1 u)
  show ?case
  proof (cases "0x80 \<le> u")
    case True
    then have "take_bit 7 u \<noteq> u" using less128_iff [of u] by auto
    then have n1: "n \<noteq> 1" using "1.prems" by auto
    then obtain m where m: "n = Suc m" "0 < m" using "1.prems"(2) by (cases n) auto
    have "take_bit (7 * m) (drop_bit 7 u) = drop_bit 7 u"
    proof (rule bit_word_eqI)
      fix k assume "k < LENGTH(32)"
      show "bit (take_bit (7 * m) (drop_bit 7 u)) k = bit (drop_bit 7 u) k"
        using take_bit_bitD [OF "1.prems"(1), of "7 + k"] m
        by (auto simp add: bit_simps)
    qed
    then have "length (writeVarint_loop (drop_bit 7 u)) \<le> m"
      using "1.IH" [OF True _ m(2)] by simp
    then show ?thesis using True m
      by (subst writeVarint_loop.simps) simp
  next
    case False
    then show ?thesis using "1.prems"(2)
      by (subst writeVarint_loop.simps) simp
  qed
qed

lemma readVarint_loop_bound:
  "readVarint_loop bs acc s = Inr (u, rest) \<Longrightarrow> take_bit s acc = acc \<Longrightarrow>
   length rest < length bs \<and> take_bit (s + 7 * (length bs - length rest)) u = u"
proof (induction bs arbitrary: acc s)
  case Nil
  then show ?case by simp
next
  case (Cons b bs)
  let ?acc' = "acc OR push_bit s (ucast (b AND 0x7F))"
  have acc': "take_bit (s + 7) ?acc' = ?acc'"
  proof (rule bit_word_eqI)
    fix k assume "k < LENGTH(32)"
    then show "bit (take_bit (s + 7) ?acc') k = bit ?acc' k"
      using take_bit_bitD [OF Cons.prems(2), of k]
      by (auto simp add: bit_simps bit127_int)
  qed
  show ?case
  proof (cases "b < 0x80")
    case True
    then show ?thesis using Cons.prems(1) acc' by (auto simp add: Let_def)
  next
    case False
    then have rec: "readVarint_loop bs ?acc' (s + 7) = Inr (u, rest)"
      using Cons.prems(1) by (auto simp add: Let_def split: if_splits)
    from Cons.IH [OF rec acc'] show ?thesis
      by (auto simp add: Suc_diff_le algebra_simps)
  qed
qed



lemma writeVarint_loop_nonempty: "writeVarint_loop u \<noteq> []"
  by (subst writeVarint_loop.simps) simp

lemma writeVarint_loop_last:
  "1 < length (writeVarint_loop u) \<longrightarrow> last (writeVarint_loop u) \<noteq> 0"
proof (induction u rule: writeVarint_loop.induct)
  case (1 u)
  show ?case
  proof (cases "0x80 \<le> u")
    case True
    let ?u' = "drop_bit 7 u"
    have "unat ?u' = unat u div 128"
      by (simp add: unat_drop_bit_eq drop_bit_eq_div unat_div)
    moreover have "128 \<le> unat u" using True by (simp add: word_le_nat_alt)
    ultimately have "unat ?u' \<noteq> 0" by simp
    then have nz: "?u' \<noteq> 0" by auto
    have ne: "writeVarint_loop ?u' \<noteq> []"
      by (rule writeVarint_loop_nonempty)
    have "last (writeVarint_loop ?u') \<noteq> 0"
    proof (cases "0x80 \<le> ?u'")
      case True
      then have "1 < length (writeVarint_loop ?u')"
        using writeVarint_loop_nonempty [of "drop_bit 7 ?u'"]
        by (subst writeVarint_loop.simps) simp
      then show ?thesis using "1.IH" [OF \<open>0x80 \<le> u\<close>] by simp
    next
      case False
      then have lt: "?u' < 0x80" by simp
      have "(ucast ?u' :: 8 word) \<noteq> 0"
        using nz low7_small [OF lt] by auto
      then show ?thesis using False
        by (subst writeVarint_loop.simps) simp
    qed
    then show ?thesis using True ne
      by (subst writeVarint_loop.simps) simp
  next
    case False
    then show ?thesis by (subst writeVarint_loop.simps) simp
  qed
qed



text \<open>
  Claim C6. For every signed 32-bit \<open>v\<close>, reading back what \<open>writeVarint\<close> wrote returns
  \<open>v\<close> and leaves the bytes that follow untouched; the encoding is the shortest one:
  no byte sequence that \<open>readVarint\<close> decodes to \<open>v\<close> is shorter, and an encoding of
  more than one byte does not end in a zero byte; the encodings of 0, -1, 1, 2147483647
  and -2147483648 take 1, 1, 1, 5 and 5 bytes.
\<close>

theorem varint_roundtrip_shortest:
  "readVarint (writeVarint v @ rest) = Inr (v, rest)
   \<and> (\<forall>bs left. readVarint bs = Inr (v, left) \<longrightarrow>
         length (writeVarint v) \<le> length bs - length left)
   \<and> (1 < length (writeVarint v) \<longrightarrow> last (writeVarint v) \<noteq> 0)
   \<and> map (\<lambda>x. length (writeVarint x)) [0, -1, 1, 2147483647, -2147483648] = [1, 1, 1, 5, 5]"
proof (intro conjI allI impI)
  show "readVarint (writeVarint v @ rest) = Inr (v, rest)"
    by (rule readVarint_writeVarint)
next
  fix bs left
  assume rd: "readVarint bs = Inr (v, left)"
  then obtain u where u: "readVarint_loop bs 0 0 = Inr (u, left)" and v: "v = unzigzag u"
    by (auto simp add: readVarint_def split: sum.splits)
  have zz: "zigzag v = u" by (simp add: v zigzag_unzigzag)
  from readVarint_loop_bound [OF u] have
    lt: "length left < length bs" and tb: "take_bit (7 * (length bs - length left)) u = u"
    by simp_all
  show "length (writeVarint v) \<le> length bs - length left"
    unfolding writeVarint_def zz using lt by (intro writeVarint_loop_length [OF tb]) simp
next
  assume "1 < length (writeVarint v)"
  then show "last (writeVarint v) \<noteq> 0"
    using writeVarint_loop_last [of "zigzag v"] by (simp add: writeVarint_def)
next
  show "map (\<lambda>x. length (writeVarint x)) [0, -1, 1, 2147483647, -2147483648] = [1, 1, 1, 5, 5]"
    by code_simp
qed

theorem varint_roundtrip_shortest_witness:
  "readVarint (writeVarint 150 @ [7]) = Inr (150, [7])
   \<and> readVarint [0xAC, 0x82, 0x00] = Inr (150, [])
   \<and> length (writeVarint 150) \<le> 3
   \<and> 1 < length (writeVarint 150)
   \<and> last (writeVarint 150) \<noteq> 0"
proof -
  have a: "readVarint [0xAC, 0x82, 0x00] = Inr (150, [])" by code_simp
  have b: "1 < length (writeVarint 150)" by code_simp
  from varint_roundtrip_shortest [of 150 "[7]"] a b show ?thesis by fastforce
qed


section \<open>Bit vector and Elias-Fano codec (elias\_fano.go)\<close>

text \<open>
  A \<open>for ... range\<close> loop whose body may fail: the state is threaded through the
  elements and the first error ends the loop.
\<close>

primrec foldE :: "('s \<Rightarrow> 'a \<Rightarrow> error + 's) \<Rightarrow> 's \<Rightarrow> 'a list \<Rightarrow> error + 's" where
  "foldE f s [] = Inr s"
| "foldE f s (x # xs) = (case f s x of Inl e \<Rightarrow> Inl e | Inr s' \<Rightarrow> foldE f s' xs)"

text \<open>
  \<open>BitArray\<close> (the declarations file): \<open>Data []uint64\<close> and \<open>Size uint32\<close>; bit
  \<open>p\<close> is bit \<open>p % 64\<close> of word \<open>p / 64\<close>. \<open>NewBitArray\<close> computes the number of words
  in \<open>uint32\<close>, so \<open>size + 63\<close> wraps. \<open>SetBit\<close> and \<open>GetBit\<close> ignore positions at
  or beyond \<open>Size\<close>; an index beyond \<open>Data\<close> is Go's run-time panic.
\<close>

record BitArray =
  Data :: "uint64 list"
  Size :: uint32

definition NewBitArray :: "uint32 \<Rightarrow> BitArray" where
  "NewBitArray size' =
     (let numWords = (size' + 63) div 64
      in \<lparr>Data = replicate (unat numWords) 0, Size = size'\<rparr>)"

definition SetBit :: "BitArray \<Rightarrow> uint32 \<Rightarrow> error + BitArray" where
  "SetBit ba pos =
     (if pos \<ge> Size ba then Inr ba
      else let wordIndex = unat (pos div 64); bitIndex = unat (pos mod 64) in
        if wordIndex < length (Data ba)
        then Inr (ba\<lparr>Data := (Data ba)[wordIndex := (Data ba ! wordIndex) OR push_bit bitIndex 1]\<rparr>)
        else Inl PanicIndexOutOfRange)"

definition GetBit :: "BitArray \<Rightarrow> uint32 \<Rightarrow> error + bool" where
  "GetBit ba pos =
     (if pos \<ge> Size ba then Inr False
      else let wordIndex = unat (pos div 64); bitIndex = unat (pos mod 64) in
        if wordIndex < length (Data ba)
        then Inr (((Data ba ! wordIndex) AND push_bit bitIndex 1) \<noteq> 0)
        else Inl PanicIndexOutOfRange)"

text \<open>
  \<open>WriteBits\<close> and \<open>ReadBits\<close> go bit by bit, least significant first;
  \<open>1 << i\<close> is a \<open>uint64\<close> shift, zero from \<open>i = 64\<close> on.
\<close>

definition WriteBits :: "BitArray \<Rightarrow> uint32 \<Rightarrow> uint64 \<Rightarrow> uint32 \<Rightarrow> error + BitArray" where
  "WriteBits ba pos value' numBits =
     foldE (\<lambda>ba i. if (value' AND push_bit i 1) \<noteq> 0 then SetBit ba (pos + of_nat i) else Inr ba)
       ba [0..<unat numBits]"

definition ReadBits :: "BitArray \<Rightarrow> uint32 \<Rightarrow> uint32 \<Rightarrow> error + uint64" where
  "ReadBits ba pos numBits =
     foldE (\<lambda>result i. case GetBit ba (pos + of_nat i) of
                          Inl e \<Rightarrow> Inl e
                        | Inr b \<Rightarrow> Inr (if b then result OR push_bit i 1 else result))
       0 [0..<unat numBits]"

text \<open>
  \<open>binary.Write\<close> and \<open>binary.Read\<close> with \<open>binary.LittleEndian\<close> on a
  \<open>bytes.Buffer\<close> and a \<open>bytes.Reader\<close>. Writing never fails. Reading \<open>n\<close> bytes is
  \<open>io.ReadFull\<close>: \<open>io.EOF\<close> if nothing is left, \<open>io.ErrUnexpectedEOF\<close> if too little
  is, and no read at all for \<open>n = 0\<close>.
\<close>

definition le32 :: "uint32 \<Rightarrow> byte list" where
  "le32 w = [ucast w, ucast (drop_bit 8 w), ucast (drop_bit 16 w), ucast (drop_bit 24 w)]"

definition le64 :: "uint64 \<Rightarrow> byte list" where
  "le64 w = [ucast w, ucast (drop_bit 8 w), ucast (drop_bit 16 w), ucast (drop_bit 24 w),
             ucast (drop_bit 32 w), ucast (drop_bit 40 w), ucast (drop_bit 48 w), ucast (drop_bit 56 w)]"

definition readFull :: "nat \<Rightarrow> byte list \<Rightarrow> error + (byte list \<times> byte list)" where
  "readFull n buf =
     (if n \<le> length buf then Inr (take n buf, drop n buf)
      else if buf = [] then Inl ErrEOF else Inl ErrUnexpectedEOF)"

primrec from_le :: "byte list \<Rightarrow> 'a::len word" where
  "from_le [] = 0"
| "from_le (b # bs) = ucast b OR push_bit 8 (from_le bs)"

definition read_uint32 :: "byte list \<Rightarrow> error + (uint32 \<times> byte list)" where
  "read_uint32 buf =
     (case readFull 4 buf of Inl e \<Rightarrow> Inl e | Inr (bs, rest) \<Rightarrow> Inr (from_le bs, rest))"

fun chunks8 :: "byte list \<Rightarrow> uint64 list" where
  "chunks8 (b0 # b1 # b2 # b3 # b4 # b5 # b6 # b7 # rest) =
     from_le [b0, b1, b2, b3, b4, b5, b6, b7] # chunks8 rest"
| "chunks8 _ = []"

definition read_uint64s :: "nat \<Rightarrow> byte list \<Rightarrow> error + (uint64 list \<times> byte list)" where
  "read_uint64s n buf =
     (case readFull (8 * n) buf of Inl e \<Rightarrow> Inl e | Inr (bs, rest) \<Rightarrow> Inr (chunks8 bs, rest))"

definition WriteTo :: "BitArray \<Rightarrow> byte list" where
  "WriteTo ba = le32 (Size ba) @ concat (map le64 (Data ba))"

definition ReadFrom :: "byte list \<Rightarrow> error + (BitArray \<times> byte list)" where
  "ReadFrom r =
     (case read_uint32 r of
        Inl e \<Rightarrow> Inl e
      | Inr (size', r1) \<Rightarrow>
          let numWords = (size' + 63) div 64 in
          (case read_uint64s (unat numWords) r1 of
             Inl e \<Rightarrow> Inl e
           | Inr (ws, r2) \<Rightarrow> Inr (\<lparr>Data = ws, Size = size'\<rparr>, r2)))"

text \<open>
  \<open>NewEliasEncoder\<close> (elias\_fano.go). The loop
  \<open>for (1 << lowBits) < ratio { lowBits++ }\<close> shifts a \<open>uint32\<close>: from \<open>lowBits = 32\<close>
  on the shift is 0, so the loop may run forever; \<open>None\<close> is "does not return".
\<close>

record EliasEncoder =
  universe :: uint32
  count :: uint32
  lowBits :: uint32

partial_function (option) lowBits_loop :: "uint32 \<Rightarrow> uint32 \<Rightarrow> uint32 option" where
  "lowBits_loop ratio l =
     (if push_bit (unat l) 1 < ratio then lowBits_loop ratio (l + 1) else Some l)"

declare lowBits_loop.simps [code]

definition NewEliasEncoder :: "uint32 \<Rightarrow> uint32 \<Rightarrow> EliasEncoder option" where
  "NewEliasEncoder universe' count' =
     (if count' > 0 \<and> universe' > count'
      then (case lowBits_loop (universe' div count') 0 of
              None \<Rightarrow> None
            | Some l \<Rightarrow>
                Some \<lparr>universe = universe', count = count', lowBits = (if l > 0 then l - 1 else l)\<rparr>)
      else Some \<lparr>universe = universe', count = count', lowBits = 0\<rparr>)"

text \<open>
  \<open>Encode\<close>: the empty sequence gives no bytes at all; otherwise the length and the
  order checks, the three header words, the low-bits array and the high-bits array.
  \<open>uint32(len(sequence))\<close> truncates; all sizes and positions are \<open>uint32\<close>.
\<close>

fun validate :: "uint32 \<Rightarrow> nat \<Rightarrow> uint32 option \<Rightarrow> uint32 list \<Rightarrow> error option" where
  "validate u i prev [] = None"
| "validate u i prev (val # rest) =
     (if val \<ge> u then Some (ErrExceedsUniverse i)
      else if (case prev of None \<Rightarrow> False | Some p \<Rightarrow> val \<le> p) then Some (ErrNotSorted i)
      else validate u (Suc i) (Some val) rest)"

definition encode_low :: "EliasEncoder \<Rightarrow> uint32 list \<Rightarrow> error + BitArray" where
  "encode_low e sequence =
     (let lowBitsSize = count e * lowBits e in
      foldE (\<lambda>lowArray (i, val).
               let lowValue = val AND (push_bit (unat (lowBits e)) 1 - 1)
               in WriteBits lowArray (of_nat i * lowBits e) (ucast lowValue) (lowBits e))
        (NewBitArray lowBitsSize) (zip [0..<length sequence] sequence))"

definition encode_high :: "EliasEncoder \<Rightarrow> uint32 list \<Rightarrow> error + BitArray" where
  "encode_high e sequence =
     (let highBitsSize = count e + drop_bit (unat (lowBits e)) (universe e) + 1 in
      case foldE (\<lambda>(highArray, pos) val.
               let highValue = drop_bit (unat (lowBits e)) val;
                   pos' = pos + highValue
               in (case (if pos' < highBitsSize then SetBit highArray pos' else Inr highArray) of
                     Inl err \<Rightarrow> Inl err
                   | Inr highArray' \<Rightarrow> Inr (highArray', pos' + 1)))
             (NewBitArray highBitsSize, 0) sequence of
        Inl err \<Rightarrow> Inl err
      | Inr (highArray, pos) \<Rightarrow> Inr highArray)"

definition Encode :: "EliasEncoder \<Rightarrow> uint32 list \<Rightarrow> error + byte list" where
  "Encode e sequence =
     (if sequence = [] then Inr []
      else if of_nat (length sequence) \<noteq> count e then Inl ErrLengthMismatch
      else case validate (universe e) 0 None sequence of
        Some err \<Rightarrow> Inl err
      | None \<Rightarrow>
          let buf = le32 (universe e) @ le32 (count e) @ le32 (lowBits e) in
          if count e = 0 then Inr buf
          else case encode_low e sequence of
            Inl err \<Rightarrow> Inl err
          | Inr lowArray \<Rightarrow>
              (case encode_high e sequence of
                 Inl err \<Rightarrow> Inl err
               | Inr highArray \<Rightarrow> Inr (buf @ WriteTo lowArray @ WriteTo highArray)))"

text \<open>
  \<open>NewEliasDecoder\<close> and \<open>Decode\<close>. The decoder has the encoder's three header
  fields and the two arrays (left empty, as the nil pointers are never read, when
  \<open>count = 0\<close>).
\<close>

record EliasDecoder = EliasEncoder +
  lowArray :: BitArray
  highArray :: BitArray

definition NewEliasDecoder :: "byte list \<Rightarrow> error + EliasDecoder" where
  "NewEliasDecoder data =
     (if length data < 12 then Inl ErrDataTooShort
      else case read_uint32 data of Inl e \<Rightarrow> Inl e | Inr (u, r1) \<Rightarrow>
           (case read_uint32 r1 of Inl e \<Rightarrow> Inl e | Inr (k, r2) \<Rightarrow>
           (case read_uint32 r2 of Inl e \<Rightarrow> Inl e | Inr (l, r3) \<Rightarrow>
             if k = 0
             then Inr \<lparr>universe = u, count = k, lowBits = l,
                        lowArray = \<lparr>Data = [], Size = 0\<rparr>, highArray = \<lparr>Data = [], Size = 0\<rparr>\<rparr>
             else (case ReadFrom r3 of Inl e \<Rightarrow> Inl e | Inr (la, r4) \<Rightarrow>
                  (case ReadFrom r4 of Inl e \<Rightarrow> Inl e | Inr (ha, r5) \<Rightarrow>
                     Inr \<lparr>universe = u, count = k, lowBits = l, lowArray = la, highArray = ha\<rparr>)))))"

lemma word_succ_measure: "(p::32 word) < s \<Longrightarrow> unat s - unat (p + 1) < unat s - unat p"
proof -
  assume "p < s"
  then have lt: "unat p < unat s" by (simp add: word_less_nat_alt)
  have "unat s < 2 ^ 32" using unsigned_less [of s, where ?'a = nat] by simp
  then have "unat (p + 1) = unat p + 1"
    using lt by (simp add: unat_word_ariths)
  then show ?thesis using lt by simp
qed

function scan_high :: "BitArray \<Rightarrow> uint32 \<Rightarrow> uint32 \<Rightarrow> error + (uint32 \<times> uint32)" where
  "scan_high ha highPos currentHigh =
     (if highPos < Size ha
      then (case GetBit ha highPos of
              Inl e \<Rightarrow> Inl e
            | Inr b \<Rightarrow> if b then Inr (highPos, currentHigh)
                       else scan_high ha (highPos + 1) (currentHigh + 1))
      else Inr (highPos, currentHigh))"
  by pat_completeness auto
termination
  by (relation "measure (\<lambda>(ha, highPos, currentHigh). unat (Size ha) - unat highPos)")
     (auto simp add: word_succ_measure)

declare scan_high.simps [simp del]

definition Decode :: "EliasDecoder \<Rightarrow> error + uint32 list" where
  "Decode d =
     (if count d = 0 then Inr []
      else case foldE (\<lambda>(highPos, currentHigh, result) i.
               case scan_high (highArray d) highPos currentHigh of
                 Inl e \<Rightarrow> Inl e
               | Inr (highPos', currentHigh') \<Rightarrow>
                   if highPos' \<ge> Size (highArray d) then Inl ErrHighBitsExhausted
                   else (case ReadBits (lowArray d) (of_nat i * lowBits d) (lowBits d) of
                           Inl e \<Rightarrow> Inl e
                         | Inr lowValue \<Rightarrow>
                             Inr (highPos' + 1, currentHigh',
                                  result @ [push_bit (unat (lowBits d)) currentHigh' OR ucast lowValue])))
             (0, 0, []) [0..<unat (count d)] of
        Inl e \<Rightarrow> Inl e
      | Inr (highPos, currentHigh, result) \<Rightarrow> Inr result)"

text \<open>
  Encoding a sequence with \<open>count = len(sequence)\<close> and decoding the bytes produced.
\<close>

definition ef_roundtrip :: "uint32 \<Rightarrow> uint32 list \<Rightarrow> (error + uint32 list) option" where
  "ef_roundtrip u sequence =
     (case NewEliasEncoder u (of_nat (length sequence)) of
        None \<Rightarrow> None
      | Some e \<Rightarrow> Some (case Encode e sequence of
                         Inl err \<Rightarrow> Inl err
                       | Inr bytes \<Rightarrow> (case NewEliasDecoder bytes of
                                          Inl err \<Rightarrow> Inl err
                                        | Inr d \<Rightarrow> Decode d)))"


subsection \<open>The low-bit width\<close>

lemma unat_2p: "l < 32 \<Longrightarrow> unat (2 ^ l :: 32 word) = 2 ^ l"
proof -
  assume "l < 32"
  then have "(2::nat) ^ l < 2 ^ 32" by (intro power_strict_increasing) simp_all
  then have "(2::nat) ^ l < 2 ^ LENGTH(32)" by simp
  moreover have "(word_of_nat (2 ^ l) :: 32 word) = 2 ^ l" by simp
  ultimately show ?thesis by (rule of_nat_inverse [rotated])
qed

lemma unat_of_nat_small: "l < 32 \<Longrightarrow> unat (of_nat l :: 32 word) = l"
  by (simp add: unat_of_nat)

lemma lowBits_loop_ceillog2:
  assumes "0 < unat ratio" "unat ratio \<le> 2 ^ 31" "l \<le> ceillog2 (unat ratio)"
  shows "lowBits_loop ratio (of_nat l) = Some (of_nat (ceillog2 (unat ratio)))"
  using assms(3)
proof (induction "ceillog2 (unat ratio) - l" arbitrary: l)
  case 0
  then have eq: "l = ceillog2 (unat ratio)" by simp
  have "ceillog2 (unat ratio) \<le> 31" using ceillog2_le_iff [OF assms(1), of 31] assms(2) by simp
  then have l31: "l < 32" unfolding eq by simp
  have "\<not> 2 ^ l < unat ratio" unfolding eq using le_two_power_ceillog2 [of "unat ratio"] by simp
  then have "\<not> (2 ^ unat (of_nat l :: 32 word) < ratio)"
    by (simp add: word_less_nat_alt unat_2p [OF l31] unat_of_nat_small [OF l31])
  then show ?case
    by (subst lowBits_loop.simps) (simp add: eq)
next
  case (Suc d)
  then have lt: "l < ceillog2 (unat ratio)" by simp
  have "ceillog2 (unat ratio) \<le> 31" using ceillog2_le_iff [OF assms(1), of 31] assms(2) by simp
  then have l31: "l < 32" using lt by simp
  have "\<not> unat ratio \<le> 2 ^ l" using ceillog2_le_iff [OF assms(1), of l] lt by simp
  then have "2 ^ l < unat ratio" by simp
  then have c: "2 ^ unat (of_nat l :: 32 word) < ratio"
    by (simp add: word_less_nat_alt unat_2p [OF l31] unat_of_nat_small [OF l31])
  have "lowBits_loop ratio (of_nat (Suc l)) = Some (of_nat (ceillog2 (unat ratio)))"
    using Suc.hyps(2) lt by (intro Suc.hyps(1)) simp_all
  then show ?case using c
    by (subst lowBits_loop.simps) (simp add: add.commute)
qed

lemma lowBits_loop_returns:
  assumes ret: "lowBits_loop ratio l = Some y"
  shows "unat ratio \<le> 2 ^ 31"
proof (rule lowBits_loop.raw_induct [where P = "\<lambda>ratio l y. unat ratio \<le> 2 ^ 31", OF _ ret])
  fix f :: "32 word \<Rightarrow> 32 word \<Rightarrow> 32 word option" and ratio l y :: "32 word"
  assume IH: "\<And>r l y. f r l = Some y \<Longrightarrow> unat r \<le> 2 ^ 31"
    and body: "(if push_bit (unat l) 1 < ratio then f ratio (l + 1) else Some l) = Some y"
  show "unat ratio \<le> 2 ^ 31"
  proof (cases "push_bit (unat l) 1 < ratio")
    case True
    with body IH show ?thesis by simp
  next
    case False
    then have le: "unat ratio \<le> unat (2 ^ unat l :: 32 word)"
      by (simp add: word_less_nat_alt)
    have "unat (2 ^ unat l :: 32 word) \<le> 2 ^ 31"
    proof (cases "unat l < 32")
      case True
      then have "unat l \<le> 31" by simp
      then have "(2::nat) ^ unat l \<le> 2 ^ 31" by (intro power_increasing) simp_all
      then show ?thesis by (simp only: unat_2p [OF True])
    next
      case False
      then have z: "(2 ^ unat l :: 32 word) = 0" by simp
      show ?thesis unfolding z by simp
    qed
    with le show ?thesis by simp
  qed
qed

lemma NewEliasEncoder_Some:
  assumes "0 < count'" "count' < universe'" "unat (universe' div count') \<le> 2 ^ 31"
  shows "\<exists>e. NewEliasEncoder universe' count' = Some e \<and> universe e = universe' \<and> count e = count'
          \<and> unat (lowBits e) = ceillog2 (unat (universe' div count')) - 1"
proof -
  let ?r = "universe' div count'"
  let ?n = "ceillog2 (unat ?r)"
  have c0: "0 < unat count'" using assms(1) by (simp add: word_less_nat_alt)
  have "unat count' < unat universe'" using assms(2) by (simp add: word_less_nat_alt)
  then have r0: "0 < unat ?r" using c0 by (simp add: unat_div div_greater_zero_iff)
  have n31: "?n \<le> 31" using ceillog2_le_iff [OF r0, of 31] assms(3) by simp
  then have un: "unat (of_nat ?n :: 32 word) = ?n" by (simp add: unat_of_nat)
  have loop: "lowBits_loop ?r 0 = Some (of_nat ?n)"
    using lowBits_loop_ceillog2 [OF r0 assms(3), of 0] by simp
  have h1: "unat (of_nat ?n - 1 :: 32 word) = ?n - 1" if "(0::32 word) < of_nat ?n"
  proof -
    have "(1::32 word) \<le> of_nat ?n" using that un by (simp add: word_le_nat_alt word_less_nat_alt)
    then show ?thesis using un by (simp add: unat_sub)
  qed
  have h2: "unat (of_nat ?n :: 32 word) = ?n - 1" if "\<not> (0::32 word) < of_nat ?n"
    using that un by (simp add: word_less_nat_alt)
  show ?thesis using assms(1,2) loop h1 h2
    by (auto simp add: NewEliasEncoder_def)
qed


definition spec_lowBits :: "nat \<Rightarrow> nat \<Rightarrow> int" where
  "spec_lowBits u k = (if 0 < k \<and> k < u then max 0 (\<lfloor>log 2 (real (u div k))\<rfloor> - 1) else 0)"

text \<open>
  Claim C3 as the specification words it: \<open>spec_lowBits\<close> is
  \<open>max(0, floor(log2(u/k)) - 1)\<close> for \<open>k > 0\<close> and \<open>u > k\<close>, else 0. At
  \<open>u = 1000000\<close>, \<open>k = 4\<close> the formula gives 16 and \<open>NewEliasEncoder\<close> chooses 17.
\<close>

theorem lowBits_formula_counterexample:
  "map_option (\<lambda>e. int (unat (lowBits e))) (NewEliasEncoder 1000000 4) = Some 17
   \<and> spec_lowBits 1000000 4 = 16"
proof
  show "map_option (\<lambda>e. int (unat (lowBits e))) (NewEliasEncoder 1000000 4) = Some 17"
    by code_simp
  have d: "(1000000::nat) div 4 = 250000" by simp
  have f: "\<lfloor>log 2 (real 250000)\<rfloor> = 17"
    using floor_log_nat_eq_if [of 2 17 250000] by simp
  show "spec_lowBits 1000000 4 = 16"
    unfolding spec_lowBits_def d f by simp
qed

text \<open>
  Claim C3, amended. For \<open>count > 0\<close>, \<open>universe > count\<close> and
  \<open>universe / count \<le> 2^31\<close> the constructor returns and the width is
  \<open>ceil(log2(universe / count)) - 1\<close>, cut off at 0 (the smallest \<open>l'\<close> with
  \<open>2^l' \<ge> universe / count\<close>, decremented unless it is 0); for \<open>count = 0\<close> or
  \<open>universe \<le> count\<close> it is 0; for \<open>universe = 1000000\<close> and \<open>count = 4\<close> it is 17.
\<close>

theorem NewEliasEncoder_lowBits:
  "(0 < count' \<and> count' < universe' \<and> unat (universe' div count') \<le> 2 ^ 31 \<longrightarrow>
      (\<exists>e. NewEliasEncoder universe' count' = Some e
          \<and> unat (lowBits e) = ceillog2 (unat universe' div unat count') - 1))
   \<and> (\<not> (0 < count' \<and> count' < universe') \<longrightarrow>
      (\<exists>e. NewEliasEncoder universe' count' = Some e \<and> lowBits e = 0))
   \<and> map_option lowBits (NewEliasEncoder 1000000 4) = Some 17"
proof (intro conjI impI)
  assume "0 < count' \<and> count' < universe' \<and> unat (universe' div count') \<le> 2 ^ 31"
  then show "\<exists>e. NewEliasEncoder universe' count' = Some e
          \<and> unat (lowBits e) = ceillog2 (unat universe' div unat count') - 1"
    using NewEliasEncoder_Some [of count' universe'] by (auto simp add: unat_div)
next
  assume "\<not> (0 < count' \<and> count' < universe')"
  then show "\<exists>e. NewEliasEncoder universe' count' = Some e \<and> lowBits e = 0"
    by (auto simp add: NewEliasEncoder_def)
next
  show "map_option lowBits (NewEliasEncoder 1000000 4) = Some 17"
    by code_simp
qed

theorem NewEliasEncoder_lowBits_witness:
  "(0::uint32) < 4 \<and> (4::uint32) < 1000000 \<and> unat (1000000 div 4 :: uint32) \<le> 2 ^ 31
   \<and> (\<exists>e. NewEliasEncoder 1000000 4 = Some e \<and> unat (lowBits e) = ceillog2 (1000000 div 4) - 1)
   \<and> ceillog2 (1000000 div 4) - 1 = 17
   \<and> (\<exists>e. NewEliasEncoder 3 5 = Some e \<and> lowBits e = 0)"
proof -
  have h: "(0::uint32) < 4 \<and> (4::uint32) < 1000000 \<and> unat (1000000 div 4 :: uint32) \<le> 2 ^ 31"
    by (simp add: word_less_nat_alt)
  have "ceillog2 250000 = 18" by (rule ceillog2_eqI) simp_all
  then have c: "ceillog2 (1000000 div 4) - 1 = 17" by simp
  have n: "\<not> ((0::uint32) < 5 \<and> (5::uint32) < 3)" by (simp add: word_less_nat_alt)
  from NewEliasEncoder_lowBits [of 4 1000000] h
  have a: "\<exists>e. NewEliasEncoder 1000000 4 = Some e \<and> unat (lowBits e) = ceillog2 (1000000 div 4) - 1"
    by simp
  from NewEliasEncoder_lowBits [of 5 3] n
  have b: "\<exists>e. NewEliasEncoder 3 5 = Some e \<and> lowBits e = 0"
    by blast
  from h c a b show ?thesis by blast
qed

text \<open>
  Claim C2 at the specification's own first scenario, \<open>u = 8\<close> and the sequence
  \<open>[1, 3, 5]\<close>: the encoder advances the position by each high part (\<open>pos += highValue\<close>)
  instead of placing element \<open>i\<close> at \<open>highValue + i\<close>, so \<open>Decode\<close>, which counts the
  zeros before each set bit, returns the running sums \<open>[1, 4, 9]\<close>.
\<close>

theorem ef_roundtrip_scenario:
  "ef_roundtrip 8 [1, 3, 5] = Some (Inr [1, 4, 9])"
  by code_simp


section \<open>Delta codec (delta\_encoding.go) and row decoder (decompressor.go)\<close>

text \<open>
  The reader of Go's \<open>compress/flate\<close> (RFC 1951) on a byte list, as
  \<open>bytes.Buffer.ReadFrom(flate.NewReader(...))\<close> drives it: the whole output, or the
  error. A block starts with the bits \<open>BFINAL\<close> and \<open>BTYPE\<close>, least significant first.
  Stored blocks (\<open>BTYPE = 0\<close>: the rest of the byte is dropped, \<open>LEN\<close> and \<open>NLEN\<close>
  follow, then \<open>LEN\<close> raw bytes) and the reserved type 3 (\<open>CorruptInputError\<close>) are
  decoded here; a stream that reaches a Huffman-coded block (types 1 and 2) is handed,
  from that block on, to the parameter \<open>H\<close>, and every theorem below holds for every
  such \<open>H\<close>. Input that ends early is \<open>io.ErrUnexpectedEOF\<close>; bytes after the final
  block are ignored.
\<close>

type_synonym huffman = "byte list \<Rightarrow> error + byte list"

lemma readFull_length: "readFull n buf = Inr (bs, rest) \<Longrightarrow> length rest \<le> length buf"
  by (auto simp add: readFull_def split: if_splits)

function inflate :: "huffman \<Rightarrow> byte list \<Rightarrow> error + byte list" where
  "inflate H [] = Inl ErrUnexpectedEOF"
| "inflate H (b0 # rest) =
     (let final = bit b0 0; typ = drop_bit 1 b0 AND 3 in
      if typ = 0 then
        (case readFull 4 rest of
           Inl e \<Rightarrow> Inl ErrUnexpectedEOF
         | Inr (lens, r1) \<Rightarrow>
             let n = (from_le (take 2 lens) :: 16 word); nn = (from_le (drop 2 lens) :: 16 word) in
             if nn \<noteq> NOT n then Inl ErrCorruptInput
             else (case readFull (unat n) r1 of
                     Inl e \<Rightarrow> Inl ErrUnexpectedEOF
                   | Inr (data, r2) \<Rightarrow>
                       if final then Inr data
                       else (case inflate H r2 of Inl e \<Rightarrow> Inl e | Inr out \<Rightarrow> Inr (data @ out))))
      else if typ = 3 then Inl ErrCorruptInput
      else H (b0 # rest))"
  by pat_completeness auto
termination
  by (relation "measure (\<lambda>(H, bs). length bs)")
     (auto dest!: readFull_length)

declare inflate.simps [simp del]

text \<open>
  \<open>CompressDeltas\<close>: the source opens \<open>flate.NewWriter(&buf, flate.BestCompression)\<close>
  and then calls \<open>writeVarint(&buf, delta)\<close>: the varints go into \<open>buf\<close> itself, not
  through the writer. \<open>writer.Close()\<close> on a writer that was given no data emits the
  empty final stored block, the five bytes \<open>01 00 00 ff ff\<close>, after them.
\<close>

definition flate_Close_unwritten :: "byte list" where
  "flate_Close_unwritten = [0x01, 0x00, 0x00, 0xFF, 0xFF]"

definition CompressDeltas :: "int32 list \<Rightarrow> error + byte list" where
  "CompressDeltas deltas =
     (if deltas = [] then Inr []
      else Inr (concat (map writeVarint deltas) @ flate_Close_unwritten))"

text \<open>
  \<open>DecompressDeltas\<close>: inflate everything, then
  \<open>for decompressedReader.Len() > 0 { delta, err := readVarint(...); if err != nil { break }; ... }\<close>
  and \<open>return deltas, nil\<close>.
\<close>

lemma readVarint_consumes: "readVarint r = Inr (delta, r') \<Longrightarrow> length r' < length r"
  using readVarint_loop_bound [of r 0 0]
  by (auto simp add: readVarint_def split: sum.splits)

function read_deltas :: "byte list \<Rightarrow> int32 list" where
  "read_deltas r =
     (if r = [] then []
      else case readVarint r of
             Inl err \<Rightarrow> []
           | Inr (delta, r') \<Rightarrow> delta # read_deltas r')"
  by pat_completeness auto
termination
  by (relation "measure length") (auto simp add: readVarint_consumes)

declare read_deltas.simps [simp del]

definition DecompressDeltas :: "huffman \<Rightarrow> byte list \<Rightarrow> error + int32 list" where
  "DecompressDeltas H compressed =
     (if compressed = [] then Inr []
      else case inflate H compressed of
             Inl err \<Rightarrow> Inl err
           | Inr decompressed \<Rightarrow> Inr (read_deltas decompressed))"

text \<open>
  The rows (the declarations file) and the delta encoder's parameters. \<open>float64\<close>
  values are rationals. \<open>RowNumGenes\<close> is the field \<open>NumGenes\<close> of \<open>CompressedRow\<close>.
\<close>

record SparseRow =
  Indices :: "uint32 list"
  Values :: "uint32 list"

record CompressedRow =
  EliasGenes :: "byte list"
  DeltaValues :: "byte list"
  RefCell :: int32
  RowNumGenes :: uint32
  MaxGeneIndex :: uint32

record DeltaEncoder =
  threshold :: rat
  quantLevels :: uint32
  lossy :: bool

text \<open>
  \<open>refMap[gene] = reference.Values[i]\<close> over \<open>reference.Indices\<close>: a later entry
  overwrites an earlier one, a missing value is a panic, and a gene that is not in the
  map reads as 0.
\<close>

fun build_map :: "uint32 list \<Rightarrow> uint32 list \<Rightarrow> (uint32 \<rightharpoonup> uint32) \<Rightarrow> error + (uint32 \<rightharpoonup> uint32)" where
  "build_map [] vs m = Inr m"
| "build_map (gene # genes) [] m = Inl PanicIndexOutOfRange"
| "build_map (gene # genes) (v # vs) m = build_map genes vs (m(gene \<mapsto> v))"

definition lookup0 :: "(uint32 \<rightharpoonup> uint32) \<Rightarrow> uint32 \<Rightarrow> uint32" where
  "lookup0 m gene = (case m gene of None \<Rightarrow> 0 | Some v \<Rightarrow> v)"

text \<open>
  \<open>ComputeDelta\<close>: the deltas \<open>int32(targetVal) - int32(refVal)\<close> over the sorted
  union of the two index lists. \<open>ReconstructFromDelta\<close>: \<open>geneIndices\<close> and \<open>deltas\<close>
  are walked together until either ends; a gene is kept when
  \<open>int32(refVal) + deltas[i] > 0\<close>.
\<close>

definition ComputeDelta :: "DeltaEncoder \<Rightarrow> SparseRow \<Rightarrow> SparseRow \<Rightarrow> error + int32 list" where
  "ComputeDelta de target reference =
     (case build_map (Indices reference) (Values reference) Map.empty of
        Inl err \<Rightarrow> Inl err
      | Inr refMap \<Rightarrow>
     (case build_map (Indices target) (Values target) Map.empty of
        Inl err \<Rightarrow> Inl err
      | Inr targetMap \<Rightarrow>
          let genes = sort (remdups (Indices target @ Indices reference)) in
          Inr (map (\<lambda>gene.
                 let targetVal = lookup0 targetMap gene;
                     refVal = lookup0 refMap gene;
                     delta = targetVal - refVal
                 in if lossy de \<and> \<bar>of_int (sint delta)\<bar> < threshold de then 0 else delta)
               genes)))"

definition ReconstructFromDelta :: "SparseRow \<Rightarrow> int32 list \<Rightarrow> uint32 list \<Rightarrow> error + SparseRow" where
  "ReconstructFromDelta reference deltas geneIndices =
     (case build_map (Indices reference) (Values reference) Map.empty of
        Inl err \<Rightarrow> Inl err
      | Inr refMap \<Rightarrow>
          let kept = filter (\<lambda>(gene, newVal). 0 < sint newVal)
                       (map (\<lambda>(gene, delta). (gene, lookup0 refMap gene + delta))
                            (zip geneIndices deltas))
          in Inr \<lparr>Indices = map fst kept, Values = map snd kept\<rparr>)"

text \<open>
  \<open>decompressCell\<close> (decompressor.go) in its three steps: the gene indices, the
  values, and the final block that cuts both slices to the shorter length.
  Its parameters \<open>deltaEncoder\<close> and \<open>numGenes\<close> are not read on this path (the
  methods called use no field of the encoder) and are left out.
\<close>

definition decode_indices :: "CompressedRow \<Rightarrow> error + uint32 list" where
  "decode_indices compressedRow =
     (if EliasGenes compressedRow \<noteq> [] then
        (case NewEliasDecoder (EliasGenes compressedRow) of
           Inl err \<Rightarrow> Inl (ErrCreateDecoder err)
         | Inr decoder \<Rightarrow>
             (case Decode decoder of
                Inl err \<Rightarrow> Inl (ErrDecodeIndices err)
              | Inr geneIndices \<Rightarrow> Inr geneIndices))
      else Inr [])"

definition decode_values ::
  "huffman \<Rightarrow> CompressedRow \<Rightarrow> SparseRow list \<Rightarrow> uint32 list \<Rightarrow> error + SparseRow" where
  "decode_values H compressedRow matrix indices =
     (if DeltaValues compressedRow \<noteq> [] then
        (case DecompressDeltas H (DeltaValues compressedRow) of
           Inl err \<Rightarrow> Inl (ErrDecompressDeltas err)
         | Inr deltas \<Rightarrow>
             if 0 \<le> sint (RefCell compressedRow) \<and> nat (sint (RefCell compressedRow)) < length matrix
             then ReconstructFromDelta (matrix ! nat (sint (RefCell compressedRow))) deltas indices
             else if length deltas \<noteq> length indices then Inl ErrValueCountMismatch
             else Inr \<lparr>Indices = indices,
                       Values = map (\<lambda>delta. if sint delta < 0 then 0 else delta) deltas\<rparr>)
      else Inr \<lparr>Indices = indices, Values = []\<rparr>)"

definition equal_lengths :: "SparseRow \<Rightarrow> SparseRow" where
  "equal_lengths result =
     (if length (Indices result) \<noteq> length (Values result)
      then let minLen = (if length (Values result) < length (Indices result)
                         then length (Values result) else length (Indices result))
           in \<lparr>Indices = take minLen (Indices result), Values = take minLen (Values result)\<rparr>
      else result)"

definition decompressCell ::
  "huffman \<Rightarrow> CompressedRow \<Rightarrow> SparseRow list \<Rightarrow> error + SparseRow" where
  "decompressCell H compressedRow matrix =
     (case decode_indices compressedRow of
        Inl err \<Rightarrow> Inl err
      | Inr indices \<Rightarrow>
          (case decode_values H compressedRow matrix indices of
             Inl err \<Rightarrow> Inl err
           | Inr result \<Rightarrow> Inr (equal_lengths result)))"


subsection \<open>What the row decoder returns\<close>

lemma equal_lengths_length: "length (Indices (equal_lengths r)) = length (Values (equal_lengths r))"
  by (simp add: equal_lengths_def Let_def min_def)

lemma equal_lengths_take:
  "equal_lengths r =
     \<lparr>Indices = take (min (length (Indices r)) (length (Values r))) (Indices r),
      Values = take (min (length (Indices r)) (length (Values r))) (Values r)\<rparr>"
  by (simp add: equal_lengths_def Let_def min_def)

text \<open>
  Claim C10. A row that \<open>decompressCell\<close> returns has as many indices as values; and
  whatever the first two steps produced, equal in length or not, the call succeeds with both
  slices cut to the shorter length.
\<close>

theorem decompressCell_equal_lengths:
  "(decompressCell H compressedRow matrix = Inr row \<longrightarrow>
      length (Indices row) = length (Values row))
   \<and> (decode_indices compressedRow = Inr indices
        \<and> decode_values H compressedRow matrix indices = Inr result \<longrightarrow>
      decompressCell H compressedRow matrix =
        Inr \<lparr>Indices = take (min (length (Indices result)) (length (Values result))) (Indices result),
             Values = take (min (length (Indices result)) (length (Values result))) (Values result)\<rparr>)"
proof (intro conjI impI)
  assume "decompressCell H compressedRow matrix = Inr row"
  then obtain r where "row = equal_lengths r"
    by (auto simp add: decompressCell_def split: sum.splits)
  then show "length (Indices row) = length (Values row)"
    by (simp add: equal_lengths_length)
next
  assume "decode_indices compressedRow = Inr indices
        \<and> decode_values H compressedRow matrix indices = Inr result"
  then show "decompressCell H compressedRow matrix =
        Inr \<lparr>Indices = take (min (length (Indices result)) (length (Values result))) (Indices result),
             Values = take (min (length (Indices result)) (length (Values result))) (Values result)\<rparr>"
    by (simp add: decompressCell_def equal_lengths_take)
qed

text \<open>
  A compressed row with three gene indices (1, 4 and 9 in the universe 10) and no value
  bytes: both slices come back empty.
\<close>

definition row_no_values :: CompressedRow where
  "row_no_values =
     \<lparr>EliasGenes = [10,0,0,0, 3,0,0,0, 0,0,0,0, 0,0,0,0, 14,0,0,0, 0x22,0x08,0,0,0,0,0,0],
      DeltaValues = [], RefCell = -1, RowNumGenes = 3, MaxGeneIndex = 10\<rparr>"

theorem decompressCell_equal_lengths_witness:
  "decode_indices row_no_values = Inr [1, 4, 9]
   \<and> decode_values (\<lambda>bs. Inl ErrCorruptInput) row_no_values [] [1, 4, 9]
        = Inr \<lparr>Indices = [1, 4, 9], Values = []\<rparr>
   \<and> decompressCell (\<lambda>bs. Inl ErrCorruptInput) row_no_values [] = Inr \<lparr>Indices = [], Values = []\<rparr>
   \<and> length (Indices \<lparr>Indices = [], Values = ([]::uint32 list)\<rparr>)
       = length (Values \<lparr>Indices = ([]::uint32 list), Values = []\<rparr>)"
proof -
  have a: "decode_indices row_no_values = Inr [1, 4, 9]" by code_simp
  have b: "decode_values (\<lambda>bs. Inl ErrCorruptInput) row_no_values [] [1, 4, 9]
        = Inr \<lparr>Indices = [1, 4, 9], Values = []\<rparr>" by code_simp
  from decompressCell_equal_lengths
    [of "\<lambda>bs. Inl ErrCorruptInput" row_no_values "[]" "\<lparr>Indices = [], Values = []\<rparr>" "[1, 4, 9]"
        "\<lparr>Indices = [1, 4, 9], Values = []\<rparr>"] a b
  show ?thesis by simp
qed

text \<open>
  The cut only ever happens when the row has no value bytes: with a reference the
  reconstruction returns equal lengths, and without one a different number of values and
  indices is the error \<open>ErrValueCountMismatch\<close>.
\<close>

lemma truncation_only_without_values:
  "decode_values H compressedRow matrix indices = Inr result \<Longrightarrow>
   length (Indices result) \<noteq> length (Values result) \<Longrightarrow>
   DeltaValues compressedRow = [] \<and> Values result = []"
  by (auto simp add: decode_values_def ReconstructFromDelta_def Let_def split: if_splits sum.splits)


text \<open>
  Claim C4 at the delta list \<open>[3]\<close>. The bytes produced are the raw varint \<open>06\<close> and the
  empty block of \<open>Close\<close>; read as a DEFLATE stream, \<open>06\<close> opens a block of the reserved
  type 3, so \<open>DecompressDeltas\<close> fails instead of returning \<open>[3]\<close>.
\<close>

theorem CompressDeltas_not_deflated:
  "CompressDeltas [3] = Inr [0x06, 0x01, 0x00, 0x00, 0xFF, 0xFF]
   \<and> DecompressDeltas H [0x06, 0x01, 0x00, 0x00, 0xFF, 0xFF] = Inl ErrCorruptInput"
  by code_simp

text \<open>
  Claim C8 at a stored block holding the varint \<open>02\<close> (the delta 1) and then six bytes of
  which the first five have the continuation bit: \<open>readVarint\<close> reports
  \<open>bytes.ErrTooLarge\<close> on them, the loop of \<open>DecompressDeltas\<close> breaks, and the call
  returns the one delta read so far with no error.
\<close>

theorem DecompressDeltas_overflow_swallowed:
  "readVarint [0x80, 0x80, 0x80, 0x80, 0x80, 0x01] = Inl ErrTooLarge
   \<and> DecompressDeltas H
        [0x01, 0x07, 0x00, 0xF8, 0xFF, 0x02, 0x80, 0x80, 0x80, 0x80, 0x80, 0x01] = Inr [1]"
  by code_simp

text \<open>
  The two rows of the specification's scenario 4, and the second as a compressed row that
  refers to the first: its index bytes decode to the genes 1, 4, 9 and its value bytes
  (one stored block) hold the varints of the deltas 1, 0, -1, 2.
\<close>

definition row_A :: SparseRow where
  "row_A = \<lparr>Indices = [1, 4, 7], Values = [2, 5, 1]\<rparr>"

definition row_B :: SparseRow where
  "row_B = \<lparr>Indices = [1, 4, 9], Values = [3, 5, 2]\<rparr>"

definition row_B_compressed :: CompressedRow where
  "row_B_compressed =
     \<lparr>EliasGenes = [10,0,0,0, 3,0,0,0, 0,0,0,0, 0,0,0,0, 14,0,0,0, 0x22,0x08,0,0,0,0,0,0],
      DeltaValues = [0x01, 0x04, 0x00, 0xFB, 0xFF, 0x02, 0x00, 0x01, 0x04],
      RefCell = 0, RowNumGenes = 3, MaxGeneIndex = 10\<rparr>"

text \<open>
  Claim C5 at the rows of the specification's scenario 4: the reference \<open>A\<close> has the genes
  1, 4, 7 with the values 2, 5, 1, the target the genes 1, 4, 9 with the values 3, 5, 2. The
  encoder's deltas run over the union 1, 4, 7, 9. \<open>decompressCell\<close> passes the row's own
  indices 1, 4, 9 to \<open>ReconstructFromDelta\<close>: the delta of gene 7 is applied at gene 9, the
  last delta is never applied, and the row comes back as genes 1, 4 with values 3, 5.
\<close>

theorem decompressCell_target_indices_only:
  "ComputeDelta \<lparr>threshold = 0, quantLevels = 256, lossy = False\<rparr> row_B row_A = Inr [1, 0, -1, 2]
   \<and> DecompressDeltas H (DeltaValues row_B_compressed) = Inr [1, 0, -1, 2]
   \<and> decode_indices row_B_compressed = Inr [1, 4, 9]
   \<and> decompressCell H row_B_compressed [row_A, \<lparr>Indices = [], Values = []\<rparr>]
       = Inr \<lparr>Indices = [1, 4], Values = [3, 5]\<rparr>"
  by code_simp


section \<open>Reference selection (delta\_encoding.go: JaccardSimilarity, FindBestReference)\<close>

text \<open>
  \<open>float64\<close> arithmetic (IEEE 754 binary64, as Go prescribes): a finite
  \<open>float64\<close> is the rational it denotes, and an operation returns the exact result
  rounded to the nearest number \<open>m * 2^e\<close> with \<open>2^52 \<le> m \<le> 2^53\<close>, ties to the even
  \<open>m\<close>. The exponent range is not modelled: quotients of two 64-bit integers are far
  from it. \<open>f64_0_1\<close> is the constant \<open>0.1\<close> of the source.
\<close>

definition round_half_even :: "rat \<Rightarrow> int" where
  "round_half_even q =
     (let f = \<lfloor>q\<rfloor>; d = q - of_int f in
      if d < 1 / 2 then f else if 1 / 2 < d then f + 1 else if even f then f else f + 1)"

definition pow2 :: "int \<Rightarrow> rat" where
  "pow2 e = (if 0 \<le> e then 2 ^ nat e else 1 / 2 ^ nat (- e))"

definition f64_round :: "rat \<Rightarrow> rat" where
  "f64_round q =
     (if q = 0 then 0
      else let (a, b) = quotient_of \<bar>q\<bar>;
               e0 = bitlen a - bitlen b - 53;
               e = (if \<bar>q\<bar> / pow2 e0 < 2 ^ 53 then e0 else e0 + 1);
               m = round_half_even (\<bar>q\<bar> / pow2 e)
           in sgn q * of_int m * pow2 e)"

definition f64_of_int :: "int \<Rightarrow> rat" where
  "f64_of_int i = f64_round (of_int i)"

definition f64_div :: "rat \<Rightarrow> rat \<Rightarrow> rat" where
  "f64_div x y = f64_round (x / y)"

definition f64_0_1 :: rat where
  "f64_0_1 = f64_round (1 / 10)"

text \<open>
  \<open>JaccardSimilarity\<close>: \<open>setA\<close> and \<open>setB\<close> are the distinct genes; \<open>intersection\<close>
  counts the entries of \<open>genesB\<close> found in \<open>setA\<close> (an entry as often as it occurs);
  \<open>union\<close> is an \<open>int\<close> and may be zero or negative when \<open>genesB\<close> repeats genes.
\<close>

definition JaccardSimilarity :: "uint32 list \<Rightarrow> uint32 list \<Rightarrow> rat" where
  "JaccardSimilarity genesA genesB =
     (if genesA = [] \<and> genesB = [] then 1
      else if genesA = [] \<or> genesB = [] then 0
      else let intersection = int (length (filter (\<lambda>gene. gene \<in> set genesA) genesB));
               union = int (length (remdups genesA)) + int (length (remdups genesB)) - intersection
           in if union = 0 then 1
              else f64_div (f64_of_int intersection) (f64_of_int union))"

text \<open>
  \<open>FindBestReference\<close>: the loop keeps \<open>bestSimilarity\<close> and \<open>bestIndex\<close>, starting
  from \<open>-1.0\<close> and \<open>-1\<close>; \<open>candidateIndices[i]\<close> is read only when candidate \<open>i\<close> is
  taken, and panics if the slice is too short.
\<close>

fun FindBestReference_loop ::
  "SparseRow \<Rightarrow> SparseRow list \<Rightarrow> int list \<Rightarrow> rat \<Rightarrow> int \<Rightarrow> error + int" where
  "FindBestReference_loop targetCell [] candidateIndices bestSimilarity bestIndex = Inr bestIndex"
| "FindBestReference_loop targetCell (candidate # candidates) candidateIndices bestSimilarity bestIndex =
     (let similarity = JaccardSimilarity (Indices targetCell) (Indices candidate) in
      if similarity > bestSimilarity \<and> similarity > f64_0_1
      then (case candidateIndices of
              [] \<Rightarrow> Inl PanicIndexOutOfRange
            | ci # _ \<Rightarrow> FindBestReference_loop targetCell candidates (tl candidateIndices) similarity ci)
      else FindBestReference_loop targetCell candidates (tl candidateIndices) bestSimilarity bestIndex)"

definition FindBestReference :: "SparseRow \<Rightarrow> SparseRow list \<Rightarrow> int list \<Rightarrow> error + int" where
  "FindBestReference targetCell candidates candidateIndices =
     (if candidates = [] then Inr (- 1)
      else FindBestReference_loop targetCell candidates candidateIndices (- 1) (- 1))"





subsection \<open>The computed similarity and the Jaccard index\<close>



























section \<open>The drivers: Decompress (decompressor.go) and Compress\<close>

text \<open>
  The container (the declarations file): \<open>Header\<close> and \<open>CompressedData\<close>.
\<close>

record Header =
  Version :: uint32
  NumCells :: uint32
  NumGenes :: uint32
  IsLossy :: bool
  Threshold :: rat
  QuantLevels :: uint32
  Timestamp :: "64 word"

record CompressedData =
  Header :: Header
  GeneNames :: "string list"
  CellNames :: "string list"
  CompressedRows :: "CompressedRow list"

text \<open>
  \<open>QuantizeValue\<close> and \<open>DequantizeValue\<close> return their argument unless the encoder is
  lossy and the value is not 0. What they compute then goes through \<open>math.Log2\<close>,
  \<open>math.Pow\<close> and \<open>math.Round\<close>; it is the parameter \<open>Q\<close>, respectively \<open>DQ\<close>, a
  function of \<open>quantLevels\<close> and the value.
\<close>

type_synonym quant_math = "uint32 \<Rightarrow> uint32 \<Rightarrow> uint32"

definition NewDeltaEncoder :: "bool \<Rightarrow> rat \<Rightarrow> uint32 \<Rightarrow> DeltaEncoder" where
  "NewDeltaEncoder lossy' threshold' quantLevels' =
     \<lparr>threshold = threshold', quantLevels = quantLevels', lossy = lossy'\<rparr>"

definition QuantizeValue :: "quant_math \<Rightarrow> DeltaEncoder \<Rightarrow> uint32 \<Rightarrow> uint32" where
  "QuantizeValue Q de value' = (if \<not> lossy de \<or> value' = 0 then value' else Q (quantLevels de) value')"

definition DequantizeValue :: "quant_math \<Rightarrow> DeltaEncoder \<Rightarrow> uint32 \<Rightarrow> uint32" where
  "DequantizeValue DQ de quantized =
     (if \<not> lossy de \<or> quantized = 0 then quantized else DQ (quantLevels de) quantized)"

definition applyDequantization :: "quant_math \<Rightarrow> SparseRow list \<Rightarrow> DeltaEncoder \<Rightarrow> SparseRow list" where
  "applyDequantization DQ matrix deltaEncoder =
     (if \<not> lossy deltaEncoder then matrix
      else map (\<lambda>row. \<lparr>Indices = Indices row, Values = map (DequantizeValue DQ deltaEncoder) (Values row)\<rparr>)
               matrix)"

text \<open>
  \<open>Decompress\<close> starts \<open>runtime.NumCPU()\<close> workers that take cell numbers from a
  channel filled with \<open>0, 1, ..., NumCells - 1\<close>, call \<open>decompressCell\<close> with the shared
  \<open>matrix\<close>, and store the row under the mutex, or record the first error. Nothing
  orders a row after its reference. A run is a list of events: a worker takes the next
  cell from the channel (\<open>Take\<close>, possible while fewer than \<open>numWorkers\<close> cells are in
  work), the worker on cell \<open>i\<close> reads the matrix inside \<open>decompressCell\<close> (\<open>Read i\<close>,
  where the row is computed from the slots as they are then), and it stores its row or
  its error (\<open>Publish i\<close>). \<open>exec\<close> is \<open>None\<close> for an event that cannot happen in the
  state. A cell number beyond \<open>CompressedRows\<close> is a panic, kept as the cell's error.
\<close>

datatype event = Take | Read nat | Publish nat

record workers =
  jobs :: "nat list"
  taken :: "nat list"
  computed :: "(nat \<times> (error + SparseRow)) list"
  slots :: "SparseRow list"
  decompressErr :: "error option"

fun exec :: "nat \<Rightarrow> huffman \<Rightarrow> CompressedRow list \<Rightarrow> workers \<Rightarrow> event \<Rightarrow> workers option" where
  "exec numWorkers H rows s Take =
     (case jobs s of
        [] \<Rightarrow> None
      | cellIdx # rest \<Rightarrow>
          if length (taken s) + length (computed s) < numWorkers
          then Some (s\<lparr>jobs := rest, taken := taken s @ [cellIdx]\<rparr>)
          else None)"
| "exec numWorkers H rows s (Read cellIdx) =
     (if cellIdx \<in> set (taken s)
      then Some (s\<lparr>taken := remove1 cellIdx (taken s),
                   computed := computed s @
                     [(cellIdx, if cellIdx < length rows
                                then decompressCell H (rows ! cellIdx) (slots s)
                                else Inl PanicIndexOutOfRange)]\<rparr>)
      else None)"
| "exec numWorkers H rows s (Publish cellIdx) =
     (case map_of (computed s) cellIdx of
        None \<Rightarrow> None
      | Some (Inl err) \<Rightarrow>
          Some (s\<lparr>computed := filter (\<lambda>(j, r). j \<noteq> cellIdx) (computed s),
                  decompressErr := (case decompressErr s of
                                      None \<Rightarrow> Some (ErrCell cellIdx err)
                                    | Some first \<Rightarrow> Some first)\<rparr>)
      | Some (Inr row) \<Rightarrow>
          Some (s\<lparr>computed := filter (\<lambda>(j, r). j \<noteq> cellIdx) (computed s),
                  slots := (slots s)[cellIdx := row]\<rparr>))"

fun run :: "nat \<Rightarrow> huffman \<Rightarrow> CompressedRow list \<Rightarrow> workers \<Rightarrow> event list \<Rightarrow> workers option" where
  "run numWorkers H rows s [] = Some s"
| "run numWorkers H rows s (e # es) =
     (case exec numWorkers H rows s e of
        None \<Rightarrow> None
      | Some s' \<Rightarrow> run numWorkers H rows s' es)"

text \<open>
  \<open>Decompress\<close> under a schedule: \<open>None\<close> when the schedule is not a complete run
  (an event that cannot happen, or work left when it ends: \<open>wg.Wait()\<close> has not
  returned), else the error recorded or the matrix, dequantized when the header says
  lossy, with the two name lists.
\<close>

definition Decompress ::
  "nat \<Rightarrow> huffman \<Rightarrow> quant_math \<Rightarrow> event list \<Rightarrow> CompressedData
     \<Rightarrow> (error + SparseRow list \<times> string list \<times> string list) option" where
  "Decompress numWorkers H DQ schedule compressed =
     (let n = unat (NumCells (Header compressed));
          deltaEncoder = NewDeltaEncoder (IsLossy (Header compressed)) (Threshold (Header compressed))
                           (QuantLevels (Header compressed));
          start = \<lparr>jobs = [0..<n], taken = [], computed = [],
                   slots = replicate n \<lparr>Indices = [], Values = []\<rparr>, decompressErr = None\<rparr>
      in case run numWorkers H (CompressedRows compressed) start schedule of
           None \<Rightarrow> None
         | Some s \<Rightarrow>
             if jobs s = [] \<and> taken s = [] \<and> computed s = []
             then (case decompressErr s of
                     Some err \<Rightarrow> Some (Inl err)
                   | None \<Rightarrow>
                       Some (Inr (if IsLossy (Header compressed)
                                  then applyDequantization DQ (slots s) deltaEncoder
                                  else slots s,
                                  GeneNames compressed, CellNames compressed)))
             else None)"

text \<open>
  Modelled from the spec: the body of \<open>Compressor.Compress\<close> is missing (compressor.go
  ends after \<open>NewCompressor\<close>). One row, after section 4.G "Encode": Elias-Fano encode
  the indices with universe \<open>num_genes\<close> and count \<open>len(indices)\<close>; select the reference
  among the rows encoded so far, numbered from 0; the deltas are \<open>ComputeDelta\<close> against
  the reference, or the row's own values (quantized if lossy) when there is none;
  \<open>delta_bytes\<close> is \<open>CompressDeltas\<close> of them. The functions called are those of the
  source. \<open>None\<close> is a constructor that does not return.
\<close>

definition compress_row ::
  "quant_math \<Rightarrow> DeltaEncoder \<Rightarrow> uint32 \<Rightarrow> SparseRow list \<Rightarrow> SparseRow
     \<Rightarrow> (error + CompressedRow) option" where
  "compress_row Q de num_genes encoded_so_far row =
     (case NewEliasEncoder num_genes (of_nat (length (Indices row))) of
        None \<Rightarrow> None
      | Some encoder \<Rightarrow>
          Some (case Encode encoder (Indices row) of
                  Inl err \<Rightarrow> Inl err
                | Inr ef_bytes \<Rightarrow>
                   (case FindBestReference row encoded_so_far (map int [0..<length encoded_so_far]) of
                      Inl err \<Rightarrow> Inl err
                    | Inr ref \<Rightarrow>
                       (case (if 0 \<le> ref then ComputeDelta de row (encoded_so_far ! nat ref)
                              else Inr (map (QuantizeValue Q de) (Values row))) of
                          Inl err \<Rightarrow> Inl err
                        | Inr deltas \<Rightarrow>
                           (case CompressDeltas deltas of
                              Inl err \<Rightarrow> Inl err
                            | Inr delta_bytes \<Rightarrow>
                                Inr \<lparr>EliasGenes = ef_bytes, DeltaValues = delta_bytes,
                                     RefCell = of_int ref,
                                     RowNumGenes = of_nat (length (Indices row)),
                                     MaxGeneIndex = num_genes\<rparr>)))))"

text \<open>
  Modelled from the spec: the rows of \<open>Compressor.Compress\<close>, in row order (section
  4.H), each against the rows before it.
\<close>

fun compress_rows ::
  "quant_math \<Rightarrow> DeltaEncoder \<Rightarrow> uint32 \<Rightarrow> SparseRow list \<Rightarrow> SparseRow list
     \<Rightarrow> (error + CompressedRow list) option" where
  "compress_rows Q de num_genes encoded_so_far [] = Some (Inr [])"
| "compress_rows Q de num_genes encoded_so_far (row # rows) =
     (case compress_row Q de num_genes encoded_so_far row of
        None \<Rightarrow> None
      | Some (Inl err) \<Rightarrow> Some (Inl err)
      | Some (Inr c) \<Rightarrow>
          (case compress_rows Q de num_genes (encoded_so_far @ [row]) rows of
             None \<Rightarrow> None
           | Some (Inl err) \<Rightarrow> Some (Inl err)
           | Some (Inr cs) \<Rightarrow> Some (Inr (c # cs))))"

text \<open>
  Modelled from the spec: \<open>Compressor.Compress\<close>, with the header of section 3
  (\<open>num_cells\<close> rows, \<open>num_genes = len(gene_names)\<close>, the encoder's parameters); the
  version number and the time stamp are parameters.
\<close>

definition Compress ::
  "quant_math \<Rightarrow> DeltaEncoder \<Rightarrow> uint32 \<Rightarrow> 64 word \<Rightarrow> SparseRow list \<Rightarrow> string list \<Rightarrow> string list
     \<Rightarrow> (error + CompressedData) option" where
  "Compress Q de version timestamp matrix geneNames cellNames =
     (case compress_rows Q de (of_nat (length geneNames)) [] matrix of
        None \<Rightarrow> None
      | Some (Inl err) \<Rightarrow> Some (Inl err)
      | Some (Inr rows) \<Rightarrow>
          Some (Inr \<lparr>Header = \<lparr>Version = version, NumCells = of_nat (length matrix),
                                 NumGenes = of_nat (length geneNames), IsLossy = lossy de,
                                 Threshold = threshold de, QuantLevels = quantLevels de,
                                 Timestamp = timestamp\<rparr>,
                      GeneNames = geneNames, CellNames = cellNames, CompressedRows = rows\<rparr>))"

text \<open>
  Compressing rows and decompressing the result under a schedule.
\<close>

definition compress_then_decompress ::
  "nat \<Rightarrow> huffman \<Rightarrow> quant_math \<Rightarrow> quant_math \<Rightarrow> event list \<Rightarrow> DeltaEncoder \<Rightarrow> uint32 \<Rightarrow> 64 word
     \<Rightarrow> SparseRow list \<Rightarrow> string list \<Rightarrow> string list
     \<Rightarrow> (error + SparseRow list \<times> string list \<times> string list) option" where
  "compress_then_decompress numWorkers H Q DQ schedule de version timestamp matrix geneNames cellNames =
     (case Compress Q de version timestamp matrix geneNames cellNames of
        None \<Rightarrow> None
      | Some (Inl err) \<Rightarrow> Some (Inl err)
      | Some (Inr compressed) \<Rightarrow> Decompress numWorkers H DQ schedule compressed)"

text \<open>
  The encoder of the command line's defaults, lossless.
\<close>

definition lossless :: DeltaEncoder where
  "lossless = NewDeltaEncoder False (1 / 10) 256"


subsection \<open>Runs that cannot succeed\<close>

text \<open>
  When \<open>decompressCell\<close> fails on every row whatever the matrix holds, every complete
  run ends in an error: no schedule and no number of workers returns rows.
\<close>

definition all_fail :: "workers \<Rightarrow> bool" where
  "all_fail s \<longleftrightarrow>
     list_all (\<lambda>(i, r). isl r) (computed s)
     \<and> (decompressErr s \<noteq> None \<or> jobs s \<noteq> [] \<or> taken s \<noteq> [] \<or> computed s \<noteq> [])"

lemma exec_all_fail:
  assumes fail: "\<And>i m. i < length rows \<Longrightarrow> isl (decompressCell H (rows ! i) m)"
    and inv: "all_fail s" and step: "exec numWorkers H rows s ev = Some s'"
  shows "all_fail s'"
proof (cases ev)
  case Take
  with step inv show ?thesis
    by (auto simp add: all_fail_def split: list.splits if_splits)
next
  case (Read i)
  with step inv fail [of i "slots s"] show ?thesis
    by (auto simp add: all_fail_def split: if_splits)
next
  case (Publish i)
  show ?thesis
  proof (cases "map_of (computed s) i")
    case None
    with step Publish show ?thesis by simp
  next
    case (Some r)
    then have "(i, r) \<in> set (computed s)" by (rule map_of_SomeD)
    with inv have "isl r" by (auto simp add: all_fail_def list_all_iff)
    then obtain e where r: "r = Inl e" by (cases r) auto
    have "list_all (\<lambda>(i, r). isl r) (filter (\<lambda>(j, r). j \<noteq> i) (computed s))"
      using inv by (auto simp add: all_fail_def list_all_iff)
    with step Publish Some r show ?thesis
      by (auto simp add: all_fail_def split: option.splits)
  qed
qed

lemma run_all_fail:
  assumes fail: "\<And>i m. i < length rows \<Longrightarrow> isl (decompressCell H (rows ! i) m)"
  shows "all_fail s \<Longrightarrow> run numWorkers H rows s schedule = Some s' \<Longrightarrow> all_fail s'"
proof (induction schedule arbitrary: s)
  case Nil
  then show ?case by simp
next
  case (Cons ev schedule)
  from Cons.prems(2) obtain s1 where s1: "exec numWorkers H rows s ev = Some s1"
    and rest: "run numWorkers H rows s1 schedule = Some s'"
    by (auto split: option.splits)
  from exec_all_fail [OF fail Cons.prems(1) s1] have "all_fail s1" by simp
  from Cons.IH [OF this rest] show ?case .
qed

lemma Decompress_all_fail:
  assumes fail: "\<And>i m. i < length (CompressedRows compressed) \<Longrightarrow>
                   isl (decompressCell H (CompressedRows compressed ! i) m)"
    and n: "0 < unat (NumCells (Header compressed))"
  shows "Decompress numWorkers H DQ schedule compressed \<noteq> Some (Inr result)"
proof
  assume d: "Decompress numWorkers H DQ schedule compressed = Some (Inr result)"
  let ?n = "unat (NumCells (Header compressed))"
  let ?start = "\<lparr>jobs = [0..<?n], taken = [], computed = [],
                   slots = replicate ?n \<lparr>Indices = [], Values = []\<rparr>, decompressErr = None\<rparr>"
  from d obtain s where r: "run numWorkers H (CompressedRows compressed) ?start schedule = Some s"
    and fin: "jobs s = []" "taken s = []" "computed s = []" and ok: "decompressErr s = None"
    by (auto simp add: Decompress_def Let_def split: option.splits if_splits)
  have "all_fail ?start" using n by (simp add: all_fail_def)
  from run_all_fail [OF fail this r] have "all_fail s" by simp
  with fin ok show False by (simp add: all_fail_def)
qed

definition one_cell :: "SparseRow list" where
  "one_cell = [\<lparr>Indices = [0], Values = [3]\<rparr>]"

lemma one_cell_compressed:
  "Compress Q lossless version timestamp one_cell [''g''] [''c''] =
     Some (Inr \<lparr>Header = \<lparr>Version = version, NumCells = 1, NumGenes = 1, IsLossy = False,
                            Threshold = 1 / 10, QuantLevels = 256, Timestamp = timestamp\<rparr>,
                 GeneNames = [''g''], CellNames = [''c''],
                 CompressedRows =
                   [\<lparr>EliasGenes = [1,0,0,0, 1,0,0,0, 0,0,0,0, 0,0,0,0, 3,0,0,0, 1,0,0,0,0,0,0,0],
                     DeltaValues = [6, 1, 0, 0, 255, 255], RefCell = - 1,
                     RowNumGenes = 1, MaxGeneIndex = 1\<rparr>]\<rparr>)"
  by code_simp

lemma one_cell_fails:
  "decompressCell H
     \<lparr>EliasGenes = [1,0,0,0, 1,0,0,0, 0,0,0,0, 0,0,0,0, 3,0,0,0, 1,0,0,0,0,0,0,0],
      DeltaValues = [6, 1, 0, 0, 255, 255], RefCell = - 1, RowNumGenes = 1, MaxGeneIndex = 1\<rparr> m
   = Inl (ErrDecompressDeltas ErrCorruptInput)"
  by code_simp

text \<open>
  Claim C1 at one valid row in lossless mode: gene 0 with the count 3, and one gene name.
  The row's value bytes are the raw varint \<open>06\<close> followed by the empty block (see
  \<open>CompressDeltas\<close>), which the DEFLATE reader rejects: the one-worker run returns the
  error of cell 0, and no run whatever returns the original row.
\<close>

theorem roundtrip_one_cell_fails:
  "compress_then_decompress 1 H Q DQ [Take, Read 0, Publish 0] lossless version timestamp
      one_cell [''g''] [''c'']
     = Some (Inl (ErrCell 0 (ErrDecompressDeltas ErrCorruptInput)))
   \<and> compress_then_decompress numWorkers H Q DQ schedule lossless version timestamp
      one_cell [''g''] [''c''] \<noteq> Some (Inr (one_cell, [''g''], [''c'']))"
proof
  show "compress_then_decompress 1 H Q DQ [Take, Read 0, Publish 0] lossless version timestamp
      one_cell [''g''] [''c'']
     = Some (Inl (ErrCell 0 (ErrDecompressDeltas ErrCorruptInput)))"
    by code_simp
  show "compress_then_decompress numWorkers H Q DQ schedule lossless version timestamp
      one_cell [''g''] [''c''] \<noteq> Some (Inr (one_cell, [''g''], [''c'']))"
    unfolding compress_then_decompress_def one_cell_compressed
    by (simp, rule Decompress_all_fail) (simp_all add: one_cell_fails)
qed


text \<open>
  A container of two cells: the row \<open>A\<close> without a reference, and the compressed row
  above that refers to cell 0.
\<close>

definition row_A_compressed :: CompressedRow where
  "row_A_compressed =
     \<lparr>EliasGenes = [10,0,0,0, 3,0,0,0, 0,0,0,0, 0,0,0,0, 14,0,0,0, 0x22,0x02,0,0,0,0,0,0],
      DeltaValues = [0x01, 0x03, 0x00, 0xFC, 0xFF, 0x04, 0x0A, 0x02],
      RefCell = - 1, RowNumGenes = 3, MaxGeneIndex = 10\<rparr>"

definition two_cells :: CompressedData where
  "two_cells =
     \<lparr>Header = \<lparr>Version = 1, NumCells = 2, NumGenes = 10, IsLossy = False, Threshold = 0,
                  QuantLevels = 256, Timestamp = 0\<rparr>,
      GeneNames = replicate 10 ''g'', CellNames = [''A'', ''B''],
      CompressedRows = [row_A_compressed, row_B_compressed]\<rparr>"

text \<open>
  Claim C9 at a container of two cells: cell 0 is the row \<open>A\<close> (genes 1, 4, 7 with the
  values 2, 5, 1, no reference), cell 1 has \<open>RefCell = 0\<close>. With two workers both of
  these runs are possible. In the first, cell 1 reads the matrix after cell 0 was
  published. In the second, both cells are taken, and cell 1 reads the matrix while slot 0
  is still the empty row: it begins before its reference is published, and the row it
  returns differs.
\<close>

theorem Decompress_depends_on_schedule:
  "Decompress 2 H DQ [Take, Read 0, Publish 0, Take, Read 1, Publish 1] two_cells
     = Some (Inr ([row_A, \<lparr>Indices = [1, 4], Values = [3, 5]\<rparr>], replicate 10 ''g'', [''A'', ''B'']))
   \<and> Decompress 2 H DQ [Take, Take, Read 1, Read 0, Publish 0, Publish 1] two_cells
     = Some (Inr ([row_A, \<lparr>Indices = [1], Values = [1]\<rparr>], replicate 10 ''g'', [''A'', ''B'']))"
  by code_simp


section \<open>Further properties\<close>

text \<open>
  \<open>NewEliasEncoder\<close> does not return when \<open>universe / count\<close> exceeds \<open>2^31\<close>: no
  \<open>uint32\<close> value \<open>1 << lowBits\<close> reaches the ratio, so the loop never ends.
\<close>

theorem NewEliasEncoder_diverges:
  assumes "0 < count'" and "count' < universe'" and "2 ^ 31 < unat (universe' div count')"
  shows "NewEliasEncoder universe' count' = None"
proof (cases "lowBits_loop (universe' div count') 0")
  case None
  with assms(1,2) show ?thesis by (simp add: NewEliasEncoder_def)
next
  case (Some l)
  from lowBits_loop_returns [OF Some] assms(3) show ?thesis by simp
qed

theorem NewEliasEncoder_diverges_witness:
  "(0::uint32) < 1 \<and> (1::uint32) < 4294967295 \<and> 2 ^ 31 < unat (4294967295 div 1 :: uint32)
   \<and> NewEliasEncoder 4294967295 1 = None"
proof -
  have h: "(0::uint32) < 1" "(1::uint32) < 4294967295" "2 ^ 31 < unat (4294967295 div 1 :: uint32)"
    by (simp_all add: word_less_nat_alt)
  from NewEliasEncoder_diverges [OF h] h show ?thesis by blast
qed

text \<open>
  The final block of \<open>decompressCell\<close> only ever cuts a row that has no value bytes, and
  then it cuts it to nothing.
\<close>

theorem truncation_needs_no_value_bytes:
  assumes "decode_values H compressedRow matrix indices = Inr result"
    and "length (Indices result) \<noteq> length (Values result)"
  shows "DeltaValues compressedRow = [] \<and> equal_lengths result = \<lparr>Indices = [], Values = []\<rparr>"
proof -
  from truncation_only_without_values [OF assms]
  have "DeltaValues compressedRow = []" and "Values result = []" by simp_all
  then show ?thesis by (simp add: equal_lengths_take)
qed

theorem truncation_needs_no_value_bytes_witness:
  "decode_values (\<lambda>bs. Inl ErrCorruptInput) row_no_values [] [1, 4, 9]
     = Inr \<lparr>Indices = [1, 4, 9], Values = []\<rparr>
   \<and> length (Indices \<lparr>Indices = [1, 4, 9], Values = ([]::uint32 list)\<rparr>)
       \<noteq> length (Values \<lparr>Indices = [1, 4, 9 :: uint32], Values = ([]::uint32 list)\<rparr>)
   \<and> DeltaValues row_no_values = []
   \<and> equal_lengths \<lparr>Indices = [1, 4, 9], Values = []\<rparr> = \<lparr>Indices = [], Values = []\<rparr>"
proof -
  have a: "decode_values (\<lambda>bs. Inl ErrCorruptInput) row_no_values [] [1, 4, 9]
     = Inr \<lparr>Indices = [1, 4, 9], Values = []\<rparr>" by code_simp
  have b: "length (Indices \<lparr>Indices = [1, 4, 9], Values = ([]::uint32 list)\<rparr>)
       \<noteq> length (Values \<lparr>Indices = [1, 4, 9 :: uint32], Values = ([]::uint32 list)\<rparr>)" by simp
  from truncation_needs_no_value_bytes [OF a b] a b show ?thesis by blast
qed

end
